theory Spec2Isabelle
  imports Main "HOL-Library.Word"
begin

unbundle bit_operations_syntax

section \<open>Bytes, errors and the struct codec\<close>

text \<open>
  The module under study is \<^verbatim>\<open>mtkclient/Library/utils.py\<close>. Python integers are
  unbounded and are modelled as \<^typ>\<open>int\<close>; a \<^verbatim>\<open>bytes\<close> object is a list of 8-bit words.
  Exceptions are values: \<open>StructError\<close> stands for \<^verbatim>\<open>struct.error\<close> (argument out of
  range for the format, or a buffer of the wrong size) and \<open>IndexError\<close> for an
  out-of-range subscript. Console output (\<^verbatim>\<open>print\<close>) does not influence any returned
  value and is left out of the model.
\<close>

type_synonym byte = "8 word"

datatype error = StructError | IndexError

text \<open>Little-endian encoding of the low \<open>n\<close> bytes of an integer, and its inverse.\<close>

fun le_bytes :: "nat \<Rightarrow> int \<Rightarrow> byte list" where
  "le_bytes 0 x = []"
| "le_bytes (Suc n) x = word_of_int (x mod 256) # le_bytes n (x div 256)"

fun le_int :: "byte list \<Rightarrow> int" where
  "le_int [] = 0"
| "le_int (b # bs) = uint b + 256 * le_int bs"

text \<open>\<^verbatim>\<open>struct.pack("<I", x)\<close> and \<^verbatim>\<open>struct.pack("<H", x)\<close>: the argument must fit the
  unsigned format, otherwise \<^verbatim>\<open>struct.error\<close> is raised.\<close>

definition pack_I :: "int \<Rightarrow> error + byte list" where
  "pack_I x = (if 0 \<le> x \<and> x < 2 ^ 32 then Inr (le_bytes 4 x) else Inl StructError)"

definition pack_H :: "int \<Rightarrow> error + byte list" where
  "pack_H x = (if 0 \<le> x \<and> x < 2 ^ 16 then Inr (le_bytes 2 x) else Inl StructError)"

section \<open>Patchtools\<close>

subsection \<open>The byte filter\<close>

text \<open>
  \<^verbatim>\<open>has_bad_uart_chars\<close> builds the local list
  \<^verbatim>\<open>badchars = [b'\x00', b'\n', b'\r', b'\x08', b'\x7f', b'\x20', b'\x09']\<close>, scans the
  buffer from the left and returns \<open>True\<close> at the first byte found in the list.
\<close>

fun has_bad_uart_chars :: "byte list \<Rightarrow> bool" where
  "has_bad_uart_chars [] = False"
| "has_bad_uart_chars (c # cs) =
     (if c \<in> set [0x00, 0x0A, 0x0D, 0x08, 0x7F, 0x20, 0x09] then True
      else has_bad_uart_chars cs)"

text \<open>\<^verbatim>\<open>uart_valid_sc\<close> builds its own copy of the list and returns \<open>False\<close> at the
  first listed byte (after two diagnostic prints, not modelled), \<open>True\<close> otherwise.\<close>

fun uart_valid_sc :: "byte list \<Rightarrow> bool" where
  "uart_valid_sc [] = True"
| "uart_valid_sc (c # cs) =
     (if c \<in> set [0x00, 0x0A, 0x0D, 0x08, 0x7F, 0x20, 0x09] then False
      else uart_valid_sc cs)"

text \<open>The byte values of that list, as a set.\<close>

definition forbidden :: "byte set" where
  "forbidden = {0x00, 0x0A, 0x0D, 0x08, 0x7F, 0x20, 0x09}"

subsection \<open>The offset search\<close>

text \<open>
  \<^verbatim>\<open>generate_offset\<close> runs two \<^verbatim>\<open>while not found and div < 0x606\<close> loops; \<open>found\<close> is
  never assigned, so the guard is \<open>div < 0x606\<close>. Each loop is a recursive function on
  the loop variable \<open>div\<close>. A loop yields \<open>Inl e\<close> when a \<^verbatim>\<open>struct.pack\<close> raises,
  \<open>Inr (Some r)\<close> when the body executes \<^verbatim>\<open>return\<close> with value \<open>r\<close>, and \<open>Inr None\<close>
  when the guard fails and control falls through to the code after the loop.
\<close>

function pos_pass :: "int \<Rightarrow> int \<Rightarrow> error + int option" where
  "pos_pass offset dv =
     (if dv < 0x606 then
        (case pack_I (offset + dv) of
           Inl e \<Rightarrow> Inl e
         | Inr data \<Rightarrow>
            (case pack_H dv of
               Inl e \<Rightarrow> Inl e
             | Inr data2 \<Rightarrow>
                 if \<not> has_bad_uart_chars data then
                   (if \<not> has_bad_uart_chars data2 then Inr (Some dv)
                    else pos_pass offset (dv + 4))
                 else pos_pass offset (dv + 4)))
      else Inr None)"
  by pat_completeness auto
termination
  by (relation "measure (\<lambda>(offset, dv). nat (0x606 - dv))") auto

function neg_pass :: "int \<Rightarrow> int \<Rightarrow> error + int option" where
  "neg_pass offset dv =
     (if dv < 0x606 then
        (case pack_I (offset - dv) of
           Inl e \<Rightarrow> Inl e
         | Inr data \<Rightarrow>
            (case pack_H dv of
               Inl e \<Rightarrow> Inl e
             | Inr data2 \<Rightarrow>
                 if \<not> has_bad_uart_chars data then
                   (if \<not> has_bad_uart_chars data2 then Inr (Some (- dv))
                    else neg_pass offset (dv + 4))
                 else neg_pass offset (dv + 4)))
      else Inr None)"
  by pat_completeness auto
termination
  by (relation "measure (\<lambda>(offset, dv). nat (0x606 - dv))") auto

declare pos_pass.simps [simp del] neg_pass.simps [simp del]

definition generate_offset :: "int \<Rightarrow> error + int" where
  "generate_offset offset =
     (case pos_pass offset 0 of
        Inl e \<Rightarrow> Inl e
      | Inr (Some r) \<Rightarrow> Inr r
      | Inr None \<Rightarrow>
         (case neg_pass offset 0 of
            Inl e \<Rightarrow> Inl e
          | Inr (Some r) \<Rightarrow> Inr r
          | Inr None \<Rightarrow> Inr 0))"

text \<open>
  What one execution of a loop body tests, written as predicates on the candidate \<open>d\<close>:
  \<open>d\<close> is a loop value (a multiple of 4 in \<open>[0, 0x606)\<close>), both \<^verbatim>\<open>struct.pack\<close> calls
  succeed, and neither buffer has a listed byte.
\<close>

definition clean :: "error + byte list \<Rightarrow> bool" where
  "clean p = (case p of Inl e \<Rightarrow> False | Inr buf \<Rightarrow> \<not> has_bad_uart_chars buf)"

definition hit_pos :: "int \<Rightarrow> int \<Rightarrow> bool" where
  "hit_pos offset d =
     (0 \<le> d \<and> d < 0x606 \<and> 4 dvd d \<and> clean (pack_I (offset + d)) \<and> clean (pack_H d))"

definition hit_neg :: "int \<Rightarrow> int \<Rightarrow> bool" where
  "hit_neg offset d =
     (0 \<le> d \<and> d < 0x606 \<and> 4 dvd d \<and> clean (pack_I (offset - d)) \<and> clean (pack_H d))"

text \<open>
  The same two loops with a counter \<open>n\<close> that is incremented at the top of every
  execution of the body. The result is paired with the final counter.
\<close>

function pos_pass_count :: "int \<Rightarrow> int \<Rightarrow> nat \<Rightarrow> (error + int option) \<times> nat" where
  "pos_pass_count offset dv n =
     (if dv < 0x606 then
        (case pack_I (offset + dv) of
           Inl e \<Rightarrow> (Inl e, n + 1)
         | Inr data \<Rightarrow>
            (case pack_H dv of
               Inl e \<Rightarrow> (Inl e, n + 1)
             | Inr data2 \<Rightarrow>
                 if \<not> has_bad_uart_chars data then
                   (if \<not> has_bad_uart_chars data2 then (Inr (Some dv), n + 1)
                    else pos_pass_count offset (dv + 4) (n + 1))
                 else pos_pass_count offset (dv + 4) (n + 1)))
      else (Inr None, n))"
  by pat_completeness auto
termination
  by (relation "measure (\<lambda>(offset, dv, n). nat (0x606 - dv))") auto

function neg_pass_count :: "int \<Rightarrow> int \<Rightarrow> nat \<Rightarrow> (error + int option) \<times> nat" where
  "neg_pass_count offset dv n =
     (if dv < 0x606 then
        (case pack_I (offset - dv) of
           Inl e \<Rightarrow> (Inl e, n + 1)
         | Inr data \<Rightarrow>
            (case pack_H dv of
               Inl e \<Rightarrow> (Inl e, n + 1)
             | Inr data2 \<Rightarrow>
                 if \<not> has_bad_uart_chars data then
                   (if \<not> has_bad_uart_chars data2 then (Inr (Some (- dv)), n + 1)
                    else neg_pass_count offset (dv + 4) (n + 1))
                 else neg_pass_count offset (dv + 4) (n + 1)))
      else (Inr None, n))"
  by pat_completeness auto
termination
  by (relation "measure (\<lambda>(offset, dv, n). nat (0x606 - dv))") auto

declare pos_pass_count.simps [simp del] neg_pass_count.simps [simp del]

subsection \<open>The instruction text\<close>

text \<open>Python's \<^verbatim>\<open>hex\<close>: lower-case digits, no padding, prefix \<^verbatim>\<open>0x\<close> (or \<^verbatim>\<open>-0x\<close>).\<close>

definition hexdigit :: "int \<Rightarrow> char" where
  "hexdigit d = ''0123456789abcdef'' ! nat d"

function hexdigits :: "int \<Rightarrow> string" where
  "hexdigits n = (if n < 16 then [hexdigit n] else hexdigits (n div 16) @ [hexdigit (n mod 16)])"
  by pat_completeness auto
termination
  by (relation "measure nat") auto

declare hexdigits.simps [simp del]

definition hex :: "int \<Rightarrow> string" where
  "hex x = (if x < 0 then ''-0x'' @ hexdigits (- x) else ''0x'' @ hexdigits x)"

definition nl :: string where
  "nl = [CHR 0x0A]"

text \<open>
  \<^verbatim>\<open>generate_offset_asm\<close>: the divisor comes from \<open>generate_offset\<close> (whose exception
  propagates); the text starts empty and grows by one f-string per statement.
\<close>

definition generate_offset_asm :: "int \<Rightarrow> string \<Rightarrow> error + string" where
  "generate_offset_asm offset reg =
     (case generate_offset offset of
        Inl e \<Rightarrow> Inl e
      | Inr dv \<Rightarrow>
         (let abase = drop_bit 16 ((offset + dv) AND 0xFFFF0000);
              a = (offset + dv) AND 0xFFFF;
              s0 = [];
              s1 = s0 @ ''# '' @ hex offset @ nl;
              s2 = s1 @ ''mov '' @ reg @ '', #'' @ hex a @ '';'' @ nl;
              s3 = s2 @ ''movk '' @ reg @ '', #'' @ hex abase @ '', LSL#16;'' @ nl;
              s4 = (if dv > 0
                    then s3 @ ''sub  '' @ reg @ '', '' @ reg @ '', #'' @ hex dv @ '';'' @ nl
                    else s3 @ ''add  '' @ reg @ '', '' @ reg @ '', #'' @ hex (- dv) @ '';'' @ nl)
          in Inr s4))"

section \<open>ELF\<close>

subsection \<open>Records\<close>

text \<open>
  \<^verbatim>\<open>ELF.MemorySegment\<close> and \<^verbatim>\<open>ELF.ProgramEntry\<close>. Both classes have an attribute
  \<^verbatim>\<open>phy_addr\<close>; the one of \<^verbatim>\<open>ProgramEntry\<close> is called \<open>pe_phy_addr\<close> here.
\<close>

record MemorySegment =
  phy_addr :: int
  virt_start_addr :: int
  virt_end_addr :: int
  file_start_addr :: int
  file_end_addr :: int

record ProgramEntry =
  p_type :: int
  from_file :: int
  virt_addr :: int
  pe_phy_addr :: int
  seg_file_len :: int
  seg_mem_len :: int
  p_flags :: int
  p_align :: int

record ELF =
  data :: "byte list"
  filename :: string
  elfclass :: int
  header :: "byte list"
  pentry :: "ProgramEntry list"
  memorylayout :: "MemorySegment list"

subsection \<open>Decoding\<close>

text \<open>
  \<^verbatim>\<open>struct.unpack(fmt, dat)\<close> for a little-endian format of unsigned fields, the format
  given as the list of field widths in bytes: \<^verbatim>\<open>"<HHH"\<close> is \<open>[2,2,2]\<close>, \<^verbatim>\<open>"<IIIIIIII"\<close> is
  eight 4s, \<^verbatim>\<open>"<IIQQQQQQ"\<close> is \<open>[4,4,8,8,8,8,8,8]\<close>. The buffer must have exactly the
  size of the format, otherwise \<^verbatim>\<open>struct.error\<close> is raised.
\<close>

fun fields :: "nat list \<Rightarrow> byte list \<Rightarrow> int list" where
  "fields [] dat = []"
| "fields (w # ws) dat = le_int (take w dat) # fields ws (drop w dat)"

definition struct_unpack :: "nat list \<Rightarrow> byte list \<Rightarrow> error + int list" where
  "struct_unpack fmt dat =
     (if length dat = sum_list fmt then Inr (fields fmt dat) else Inl StructError)"

text \<open>The slice \<^verbatim>\<open>xs[a:b]\<close> for non-negative \<open>a\<close> and \<open>b\<close> (the only ones \<open>parse\<close> forms).\<close>

definition slice :: "'a list \<Rightarrow> int \<Rightarrow> int \<Rightarrow> 'a list" where
  "slice xs a b = take (nat (b - a)) (drop (nat a) xs)"

text \<open>\<^verbatim>\<open>parse_programentry\<close>: a fresh \<^verbatim>\<open>ProgramEntry\<close> has every attribute 0; the class
  decides the format and the order of the fields.\<close>

definition ProgramEntry_new :: ProgramEntry where
  "ProgramEntry_new = \<lparr>p_type = 0, from_file = 0, virt_addr = 0, pe_phy_addr = 0,
     seg_file_len = 0, seg_mem_len = 0, p_flags = 0, p_align = 0\<rparr>"

definition parse_programentry :: "int \<Rightarrow> byte list \<Rightarrow> error + ProgramEntry" where
  "parse_programentry cls dat =
     (if cls = 1 then
        (case struct_unpack [4, 4, 4, 4, 4, 4, 4, 4] dat of
           Inl e \<Rightarrow> Inl e
         | Inr v \<Rightarrow> Inr \<lparr>p_type = v ! 0, from_file = v ! 1, virt_addr = v ! 2,
                         pe_phy_addr = v ! 3, seg_file_len = v ! 4, seg_mem_len = v ! 5,
                         p_flags = v ! 6, p_align = v ! 7\<rparr>)
      else if cls = 2 then
        (case struct_unpack [4, 4, 8, 8, 8, 8, 8, 8] dat of
           Inl e \<Rightarrow> Inl e
         | Inr v \<Rightarrow> Inr \<lparr>p_type = v ! 0, from_file = v ! 2, virt_addr = v ! 3,
                         pe_phy_addr = v ! 4, seg_file_len = v ! 5, seg_mem_len = v ! 6,
                         p_flags = v ! 1, p_align = v ! 7\<rparr>)
      else Inr ProgramEntry_new)"

text \<open>The \<^verbatim>\<open>for i in range(0, programheaderentrycount)\<close> loop of \<open>parse\<close>, over the list
  of the indices still to visit; the first entry that fails to decode raises.\<close>

fun parse_entries :: "int \<Rightarrow> byte list \<Rightarrow> int \<Rightarrow> int \<Rightarrow> int list \<Rightarrow> error + ProgramEntry list" where
  "parse_entries cls dat elfheadersize programheaderentrysize [] = Inr []"
| "parse_entries cls dat elfheadersize programheaderentrysize (i # rest) =
     (let start = elfheadersize + (i * programheaderentrysize);
          stop = start + programheaderentrysize
      in case parse_programentry cls (slice dat start stop) of
           Inl e \<Rightarrow> Inl e
         | Inr pe \<Rightarrow>
            (case parse_entries cls dat elfheadersize programheaderentrysize rest of
               Inl e \<Rightarrow> Inl e
             | Inr pes \<Rightarrow> Inr (pe # pes)))"

text \<open>
  \<^verbatim>\<open>parse\<close>. The result is the class byte stored in \<^verbatim>\<open>self.elfclass\<close> together with the
  returned pair. \<^verbatim>\<open>self.data[4]\<close> raises on a buffer shorter than five bytes. For a class
  byte other than 1 and 2 the method prints a message and returns a pair of empty
  strings: the empty header and the empty entry sequence.
\<close>

definition parse :: "byte list \<Rightarrow> error + (int \<times> byte list \<times> ProgramEntry list)" where
  "parse dat =
     (if length dat \<le> 4 then Inl IndexError
      else
        (let cls = uint (dat ! 4) in
         if cls \<noteq> 1 \<and> cls \<noteq> 2 then Inr (cls, [], [])
         else
           (let start = (if cls = 1 then 0x28 else 0x34) in
            case struct_unpack [2, 2, 2] (slice dat start (start + 3 * 2)) of
              Inl e \<Rightarrow> Inl e
            | Inr v \<Rightarrow>
               (let elfheadersize = v ! 0;
                    programheaderentrysize = v ! 1;
                    programheaderentrycount = v ! 2;
                    programheadersize = programheaderentrysize * programheaderentrycount;
                    hdr = slice dat 0 (elfheadersize + programheadersize)
                in case parse_entries cls dat elfheadersize programheaderentrysize
                          [0 .. programheaderentrycount - 1] of
                     Inl e \<Rightarrow> Inl e
                   | Inr pes \<Rightarrow> Inr (cls, hdr, pes)))))"

text \<open>\<^verbatim>\<open>ELF.__init__\<close>: one \<^verbatim>\<open>MemorySegment\<close> per program entry, in table order.\<close>

definition segment_of :: "ProgramEntry \<Rightarrow> MemorySegment" where
  "segment_of entry = \<lparr>phy_addr = pe_phy_addr entry,
     virt_start_addr = virt_addr entry,
     virt_end_addr = virt_addr entry + seg_mem_len entry,
     file_start_addr = from_file entry,
     file_end_addr = from_file entry + seg_file_len entry\<rparr>"

definition ELF_init :: "byte list \<Rightarrow> string \<Rightarrow> error + ELF" where
  "ELF_init indata fname =
     (case parse indata of
        Inl e \<Rightarrow> Inl e
      | Inr (cls, hdr, pes) \<Rightarrow>
          Inr \<lparr>data = indata, filename = fname, elfclass = cls, header = hdr, pentry = pes,
               memorylayout = map segment_of pes\<rparr>)"

subsection \<open>Address lookups\<close>

text \<open>
  Each lookup is a \<^verbatim>\<open>for memsegment in self.memorylayout\<close> loop that returns at the
  first segment whose inclusive range holds the query, and \<^verbatim>\<open>None\<close> after the loop.
\<close>

fun scan_fileoffset :: "MemorySegment list \<Rightarrow> int \<Rightarrow> int option" where
  "scan_fileoffset [] offset = None"
| "scan_fileoffset (memsegment # rest) offset =
     (if virt_end_addr memsegment \<ge> offset \<and> offset \<ge> virt_start_addr memsegment
      then Some (offset - virt_start_addr memsegment + file_start_addr memsegment)
      else scan_fileoffset rest offset)"

fun scan_virtaddr :: "MemorySegment list \<Rightarrow> int \<Rightarrow> int option" where
  "scan_virtaddr [] fileoffset = None"
| "scan_virtaddr (memsegment # rest) fileoffset =
     (if file_end_addr memsegment \<ge> fileoffset \<and> fileoffset \<ge> file_start_addr memsegment
      then Some (virt_start_addr memsegment + fileoffset - file_start_addr memsegment)
      else scan_virtaddr rest fileoffset)"

fun scan_baseaddr :: "MemorySegment list \<Rightarrow> int \<Rightarrow> int option" where
  "scan_baseaddr [] offset = None"
| "scan_baseaddr (memsegment # rest) offset =
     (if virt_end_addr memsegment \<ge> offset \<and> offset \<ge> virt_start_addr memsegment
      then Some (virt_start_addr memsegment)
      else scan_baseaddr rest offset)"

definition getfileoffset :: "ELF \<Rightarrow> int \<Rightarrow> int option" where
  "getfileoffset self offset = scan_fileoffset (memorylayout self) offset"

definition getvirtaddr :: "ELF \<Rightarrow> int \<Rightarrow> int option" where
  "getvirtaddr self fileoffset = scan_virtaddr (memorylayout self) fileoffset"

definition getbaseaddr :: "ELF \<Rightarrow> int \<Rightarrow> int option" where
  "getbaseaddr self offset = scan_baseaddr (memorylayout self) offset"

subsection \<open>Range tests and a sample image\<close>

text \<open>The two inclusive range tests that the lookups apply to a segment.\<close>

definition in_virt :: "MemorySegment \<Rightarrow> int \<Rightarrow> bool" where
  "in_virt m a = (virt_start_addr m \<le> a \<and> a \<le> virt_end_addr m)"

definition in_file :: "MemorySegment \<Rightarrow> int \<Rightarrow> bool" where
  "in_file m a = (file_start_addr m \<le> a \<and> a \<le> file_end_addr m)"

text \<open>
  A 64-bit image of 120 bytes: a 64-byte header (class byte 2; header size \<open>0x40\<close>, entry
  size \<open>0x38\<close> and entry count 1 at offset \<open>0x34\<close>) followed by one program entry with
  file offset \<open>0x40\<close>, virtual address \<open>0x1000\<close>, file size \<open>0x100\<close> and memory size
  \<open>0x200\<close>; and the object that the constructor builds from it.
\<close>

definition scenario_image :: "byte list" where
  "scenario_image =
     [0x7F, 0x45, 0x4C, 0x46, 0x02] @ replicate 47 0 @
     [0x40, 0x00, 0x38, 0x00, 0x01, 0x00] @ replicate 6 0 @
     le_bytes 4 1 @ le_bytes 4 5 @ le_bytes 8 0x40 @ le_bytes 8 0x1000 @ le_bytes 8 0x1000 @
     le_bytes 8 0x100 @ le_bytes 8 0x200 @ le_bytes 8 0x1000"

definition scenario_entry :: ProgramEntry where
  "scenario_entry = \<lparr>p_type = 1, from_file = 0x40, virt_addr = 0x1000, pe_phy_addr = 0x1000,
     seg_file_len = 0x100, seg_mem_len = 0x200, p_flags = 5, p_align = 0x1000\<rparr>"

definition scenario_elf :: ELF where
  "scenario_elf = \<lparr>data = scenario_image, filename = ''scenario'', elfclass = 2,
     header = scenario_image, pentry = [scenario_entry],
     memorylayout = [\<lparr>phy_addr = 0x1000, virt_start_addr = 0x1000, virt_end_addr = 0x1200,
       file_start_addr = 0x40, file_end_addr = 0x140\<rparr>]\<rparr>"

section \<open>Properties of the byte filter\<close>

text \<open>
  Claim C8. For every byte buffer, \<open>has_bad_uart_chars\<close> reports the buffer safe (returns
  \<open>False\<close>) if and only if no byte of the buffer belongs to the forbidden set
  \<open>{0x00, 0x0A, 0x0D, 0x08, 0x7F, 0x20, 0x09}\<close>.
\<close>

theorem has_bad_uart_chars_iff:
  "\<not> has_bad_uart_chars buf \<longleftrightarrow> set buf \<inter> forbidden = {}"
  by (induction buf) (auto simp: forbidden_def)

text \<open>
  Claim C10. For every byte buffer \<open>b\<close>, \<open>uart_valid_sc b\<close> is true if and only if
  \<open>has_bad_uart_chars b\<close> is false, and both decide membership in the same forbidden set.
\<close>

theorem uart_valid_sc_agrees:
  "(uart_valid_sc b \<longleftrightarrow> \<not> has_bad_uart_chars b) \<and>
   (uart_valid_sc b \<longleftrightarrow> set b \<inter> forbidden = {}) \<and>
   (has_bad_uart_chars b \<longleftrightarrow> set b \<inter> forbidden \<noteq> {})"
  by (induction b) (auto simp: forbidden_def)

section \<open>Properties of the offset search\<close>

lemma pos_pass_Some:
  "pos_pass offset dv = Inr (Some r) \<Longrightarrow> 0 \<le> dv \<Longrightarrow> 4 dvd dv \<Longrightarrow>
     dv \<le> r \<and> hit_pos offset r \<and> (\<forall>d. dv \<le> d \<and> d < r \<and> 4 dvd d \<longrightarrow> \<not> hit_pos offset d)"
proof (induction offset dv rule: pos_pass.induct)
  case (1 offset dv)
  from "1.prems"(1) have lt: "dv < 0x606"
    by (subst (asm) pos_pass.simps) (simp split: if_splits)
  from "1.prems"(1) lt obtain buf buf2 where
    p: "pack_I (offset + dv) = Inr buf" "pack_H dv = Inr buf2"
    by (subst (asm) pos_pass.simps) (auto split: sum.splits)
  show ?case
  proof (cases "\<not> has_bad_uart_chars buf \<and> \<not> has_bad_uart_chars buf2")
    case True
    with "1.prems" lt p have "r = dv"
      by (subst (asm) pos_pass.simps) simp
    with True p lt "1.prems" show ?thesis
      by (auto simp: hit_pos_def clean_def)
  next
    case False
    with "1.prems"(1) lt p have rec: "pos_pass offset (dv + 4) = Inr (Some r)"
      by (subst (asm) pos_pass.simps) (auto split: if_splits)
    have nohit: "\<not> hit_pos offset dv"
      using False p by (auto simp: hit_pos_def clean_def)
    have ih: "dv + 4 \<le> r \<and> hit_pos offset r \<and>
        (\<forall>d. dv + 4 \<le> d \<and> d < r \<and> 4 dvd d \<longrightarrow> \<not> hit_pos offset d)"
    proof (cases "has_bad_uart_chars buf")
      case True
      show ?thesis
        using "1.IH"(2)[OF lt p(1) p(2)] True rec "1.prems" by simp
    next
      case f: False
      with False have b2: "has_bad_uart_chars buf2" by simp
      show ?thesis
        using "1.IH"(1)[OF lt p(1) p(2)] f b2 rec "1.prems" by simp
    qed
    have step: "\<And>d. dv \<le> d \<Longrightarrow> 4 dvd d \<Longrightarrow> d = dv \<or> dv + 4 \<le> d"
      using "1.prems"(3) by presburger
    have "\<forall>d. dv \<le> d \<and> d < r \<and> 4 dvd d \<longrightarrow> \<not> hit_pos offset d"
    proof (intro allI impI)
      fix d assume a: "dv \<le> d \<and> d < r \<and> 4 dvd d"
      then have "d = dv \<or> dv + 4 \<le> d" using step by blast
      then show "\<not> hit_pos offset d" using nohit ih a by blast
    qed
    with ih show ?thesis by simp
  qed
qed

lemma pos_pass_None:
  "pos_pass offset dv = Inr None \<Longrightarrow> 4 dvd dv \<Longrightarrow>
     (\<forall>d. dv \<le> d \<and> 4 dvd d \<longrightarrow> \<not> hit_pos offset d)"
proof (induction offset dv rule: pos_pass.induct)
  case (1 offset dv)
  show ?case
  proof (cases "dv < 0x606")
    case False
    then show ?thesis by (auto simp: hit_pos_def)
  next
    case lt: True
    from "1.prems"(1) lt obtain buf buf2 where
      p: "pack_I (offset + dv) = Inr buf" "pack_H dv = Inr buf2"
      by (subst (asm) pos_pass.simps) (auto split: sum.splits)
    from "1.prems"(1) lt p have bad: "has_bad_uart_chars buf \<or> has_bad_uart_chars buf2"
      by (subst (asm) pos_pass.simps) (auto split: if_splits)
    from "1.prems"(1) lt p have rec: "pos_pass offset (dv + 4) = Inr None"
      by (subst (asm) pos_pass.simps) (auto split: if_splits)
    have nohit: "\<not> hit_pos offset dv"
      using bad p by (auto simp: hit_pos_def clean_def)
    have ih: "\<forall>d. dv + 4 \<le> d \<and> 4 dvd d \<longrightarrow> \<not> hit_pos offset d"
    proof (cases "has_bad_uart_chars buf")
      case True
      show ?thesis
        using "1.IH"(2)[OF lt p(1) p(2)] True rec "1.prems" by simp
    next
      case f: False
      with bad have b2: "has_bad_uart_chars buf2" by simp
      show ?thesis
        using "1.IH"(1)[OF lt p(1) p(2)] f b2 rec "1.prems" by simp
    qed
    have step: "\<And>d. dv \<le> d \<Longrightarrow> 4 dvd d \<Longrightarrow> d = dv \<or> dv + 4 \<le> d"
      using "1.prems"(2) by presburger
    show ?thesis
    proof (intro allI impI)
      fix d assume a: "dv \<le> d \<and> 4 dvd d"
      then have "d = dv \<or> dv + 4 \<le> d" using step by blast
      then show "\<not> hit_pos offset d" using nohit ih a by blast
    qed
  qed
qed

lemma neg_pass_Some:
  "neg_pass offset dv = Inr (Some r) \<Longrightarrow> 0 \<le> dv \<Longrightarrow> 4 dvd dv \<Longrightarrow>
     dv \<le> - r \<and> hit_neg offset (- r) \<and>
     (\<forall>d. dv \<le> d \<and> d < - r \<and> 4 dvd d \<longrightarrow> \<not> hit_neg offset d)"
proof (induction offset dv rule: neg_pass.induct)
  case (1 offset dv)
  from "1.prems"(1) have lt: "dv < 0x606"
    by (subst (asm) neg_pass.simps) (simp split: if_splits)
  from "1.prems"(1) lt obtain buf buf2 where
    p: "pack_I (offset - dv) = Inr buf" "pack_H dv = Inr buf2"
    by (subst (asm) neg_pass.simps) (auto split: sum.splits)
  show ?case
  proof (cases "\<not> has_bad_uart_chars buf \<and> \<not> has_bad_uart_chars buf2")
    case True
    with "1.prems" lt p have "r = - dv"
      by (subst (asm) neg_pass.simps) simp
    with True p lt "1.prems" show ?thesis
      by (auto simp: hit_neg_def clean_def)
  next
    case False
    with "1.prems"(1) lt p have rec: "neg_pass offset (dv + 4) = Inr (Some r)"
      by (subst (asm) neg_pass.simps) (auto split: if_splits)
    have nohit: "\<not> hit_neg offset dv"
      using False p by (auto simp: hit_neg_def clean_def)
    have ih: "dv + 4 \<le> - r \<and> hit_neg offset (- r) \<and>
        (\<forall>d. dv + 4 \<le> d \<and> d < - r \<and> 4 dvd d \<longrightarrow> \<not> hit_neg offset d)"
    proof (cases "has_bad_uart_chars buf")
      case True
      show ?thesis
        using "1.IH"(2)[OF lt p(1) p(2)] True rec "1.prems" by simp
    next
      case f: False
      with False have b2: "has_bad_uart_chars buf2" by simp
      show ?thesis
        using "1.IH"(1)[OF lt p(1) p(2)] f b2 rec "1.prems" by simp
    qed
    have step: "\<And>d. dv \<le> d \<Longrightarrow> 4 dvd d \<Longrightarrow> d = dv \<or> dv + 4 \<le> d"
      using "1.prems"(3) by presburger
    have "\<forall>d. dv \<le> d \<and> d < - r \<and> 4 dvd d \<longrightarrow> \<not> hit_neg offset d"
    proof (intro allI impI)
      fix d assume a: "dv \<le> d \<and> d < - r \<and> 4 dvd d"
      then have "d = dv \<or> dv + 4 \<le> d" using step by blast
      then show "\<not> hit_neg offset d" using nohit ih a by blast
    qed
    with ih show ?thesis by simp
  qed
qed

lemma neg_pass_None:
  "neg_pass offset dv = Inr None \<Longrightarrow> 4 dvd dv \<Longrightarrow>
     (\<forall>d. dv \<le> d \<and> 4 dvd d \<longrightarrow> \<not> hit_neg offset d)"
proof (induction offset dv rule: neg_pass.induct)
  case (1 offset dv)
  show ?case
  proof (cases "dv < 0x606")
    case False
    then show ?thesis by (auto simp: hit_neg_def)
  next
    case lt: True
    from "1.prems"(1) lt obtain buf buf2 where
      p: "pack_I (offset - dv) = Inr buf" "pack_H dv = Inr buf2"
      by (subst (asm) neg_pass.simps) (auto split: sum.splits)
    from "1.prems"(1) lt p have bad: "has_bad_uart_chars buf \<or> has_bad_uart_chars buf2"
      by (subst (asm) neg_pass.simps) (auto split: if_splits)
    from "1.prems"(1) lt p have rec: "neg_pass offset (dv + 4) = Inr None"
      by (subst (asm) neg_pass.simps) (auto split: if_splits)
    have nohit: "\<not> hit_neg offset dv"
      using bad p by (auto simp: hit_neg_def clean_def)
    have ih: "\<forall>d. dv + 4 \<le> d \<and> 4 dvd d \<longrightarrow> \<not> hit_neg offset d"
    proof (cases "has_bad_uart_chars buf")
      case True
      show ?thesis
        using "1.IH"(2)[OF lt p(1) p(2)] True rec "1.prems" by simp
    next
      case f: False
      with bad have b2: "has_bad_uart_chars buf2" by simp
      show ?thesis
        using "1.IH"(1)[OF lt p(1) p(2)] f b2 rec "1.prems" by simp
    qed
    have step: "\<And>d. dv \<le> d \<Longrightarrow> 4 dvd d \<Longrightarrow> d = dv \<or> dv + 4 \<le> d"
      using "1.prems"(2) by presburger
    show ?thesis
    proof (intro allI impI)
      fix d assume a: "dv \<le> d \<and> 4 dvd d"
      then have "d = dv \<or> dv + 4 \<le> d" using step by blast
      then show "\<not> hit_neg offset d" using nohit ih a by blast
    qed
  qed
qed

lemma pos_pass_no_error:
  "0 \<le> offset \<Longrightarrow> offset + 0x604 < 2 ^ 32 \<Longrightarrow> 0 \<le> dv \<Longrightarrow> 4 dvd dv \<Longrightarrow>
     pos_pass offset dv \<noteq> Inl e"
proof (induction offset dv rule: pos_pass.induct)
  case (1 offset dv)
  show ?case
  proof (cases "dv < 0x606")
    case False
    then show ?thesis by (subst pos_pass.simps) simp
  next
    case lt: True
    with "1.prems"(4) have le: "dv \<le> 0x604" by presburger
    with "1.prems" have p: "pack_I (offset + dv) = Inr (le_bytes 4 (offset + dv))"
      "pack_H dv = Inr (le_bytes 2 dv)"
      by (simp_all add: pack_I_def pack_H_def)
    have nxt: "0 \<le> dv + 4" "4 dvd dv + 4" using "1.prems" by simp_all
    note ih1 = "1.IH"(1)[OF lt p(1) p(2) _ _ "1.prems"(1,2) nxt]
    note ih2 = "1.IH"(2)[OF lt p(1) p(2) _ "1.prems"(1,2) nxt]
    show ?thesis
      using ih1 ih2 lt p by (subst pos_pass.simps) auto
  qed
qed

lemma neg_pass_no_error:
  "0x604 \<le> offset \<Longrightarrow> offset < 2 ^ 32 \<Longrightarrow> 0 \<le> dv \<Longrightarrow> 4 dvd dv \<Longrightarrow>
     neg_pass offset dv \<noteq> Inl e"
proof (induction offset dv rule: neg_pass.induct)
  case (1 offset dv)
  show ?case
  proof (cases "dv < 0x606")
    case False
    then show ?thesis by (subst neg_pass.simps) simp
  next
    case lt: True
    with "1.prems"(4) have le: "dv \<le> 0x604" by presburger
    with "1.prems" have p: "pack_I (offset - dv) = Inr (le_bytes 4 (offset - dv))"
      "pack_H dv = Inr (le_bytes 2 dv)"
      by (simp_all add: pack_I_def pack_H_def)
    have nxt: "0 \<le> dv + 4" "4 dvd dv + 4" using "1.prems" by simp_all
    note ih1 = "1.IH"(1)[OF lt p(1) p(2) _ _ "1.prems"(1,2) nxt]
    note ih2 = "1.IH"(2)[OF lt p(1) p(2) _ "1.prems"(1,2) nxt]
    show ?thesis
      using ih1 ih2 lt p by (subst neg_pass.simps) auto
  qed
qed

lemma has_bad_top_zero:
  "0 \<le> x \<Longrightarrow> x < 2 ^ 24 \<Longrightarrow> has_bad_uart_chars (le_bytes 4 x)"
proof -
  assume a: "0 \<le> x" "x < 2 ^ 24"
  have "x div 256 div 256 div 256 = x div 2 ^ 24"
    by (simp add: div_mult2_eq[symmetric])
  with a have "x div 256 div 256 div 256 = 0" by simp
  then show ?thesis by (simp add: numeral_eq_Suc)
qed

lemma pos_pass_exhaust:
  "0 \<le> dv \<Longrightarrow> 0 \<le> offset \<Longrightarrow> offset + 0x605 < 2 ^ 24 \<Longrightarrow> pos_pass offset dv = Inr None"
proof (induction offset dv rule: pos_pass.induct)
  case (1 offset dv)
  show ?case
  proof (cases "dv < 0x606")
    case False
    then show ?thesis by (subst pos_pass.simps) simp
  next
    case lt: True
    with "1.prems" have p: "pack_I (offset + dv) = Inr (le_bytes 4 (offset + dv))"
      "pack_H dv = Inr (le_bytes 2 dv)"
      by (simp_all add: pack_I_def pack_H_def)
    from lt "1.prems" have bad: "has_bad_uart_chars (le_bytes 4 (offset + dv))"
      by (intro has_bad_top_zero) simp_all
    have nxt: "0 \<le> dv + 4" using "1.prems" by simp
    note ih2 = "1.IH"(2)[OF lt p(1) p(2) _ nxt "1.prems"(2,3)]
    show ?thesis
      using ih2 lt p bad by (subst pos_pass.simps) simp
  qed
qed

lemma neg_pass_exhaust:
  "0 \<le> dv \<Longrightarrow> 0x605 \<le> offset \<Longrightarrow> offset < 2 ^ 24 \<Longrightarrow> neg_pass offset dv = Inr None"
proof (induction offset dv rule: neg_pass.induct)
  case (1 offset dv)
  show ?case
  proof (cases "dv < 0x606")
    case False
    then show ?thesis by (subst neg_pass.simps) simp
  next
    case lt: True
    with "1.prems" have p: "pack_I (offset - dv) = Inr (le_bytes 4 (offset - dv))"
      "pack_H dv = Inr (le_bytes 2 dv)"
      by (simp_all add: pack_I_def pack_H_def)
    from lt "1.prems" have bad: "has_bad_uart_chars (le_bytes 4 (offset - dv))"
      by (intro has_bad_top_zero) simp_all
    have nxt: "0 \<le> dv + 4" using "1.prems" by simp
    note ih2 = "1.IH"(2)[OF lt p(1) p(2) _ nxt "1.prems"(2,3)]
    show ?thesis
      using ih2 lt p bad by (subst neg_pass.simps) simp
  qed
qed

lemma pos_pass_count_fst: "fst (pos_pass_count offset dv n) = pos_pass offset dv"
proof (induction offset dv n rule: pos_pass_count.induct)
  case (1 offset dv n)
  show ?case
    using "1.IH"
    by (subst pos_pass_count.simps, subst pos_pass.simps) (auto split: sum.splits)
qed

lemma neg_pass_count_fst: "fst (neg_pass_count offset dv n) = neg_pass offset dv"
proof (induction offset dv n rule: neg_pass_count.induct)
  case (1 offset dv n)
  show ?case
    using "1.IH"
    by (subst neg_pass_count.simps, subst neg_pass.simps) (auto split: sum.splits)
qed

lemma pos_pass_count_snd:
  "snd (pos_pass_count offset dv n) \<le> n + nat ((0x606 - dv + 3) div 4)"
proof (induction offset dv n rule: pos_pass_count.induct)
  case (1 offset dv n)
  show ?case
  proof (cases "dv < 0x606")
    case False
    then show ?thesis by (subst pos_pass_count.simps) simp
  next
    case lt: True
    then have s: "nat ((0x606 - dv + 3) div 4) = 1 + nat ((0x606 - (dv + 4) + 3) div 4)"
      by simp
    have one: "n + 1 \<le> n + nat ((0x606 - dv + 3) div 4)" using s by simp
    show ?thesis
      using "1.IH" lt one s
      by (subst pos_pass_count.simps) (auto split: sum.splits)
  qed
qed

lemma neg_pass_count_snd:
  "snd (neg_pass_count offset dv n) \<le> n + nat ((0x606 - dv + 3) div 4)"
proof (induction offset dv n rule: neg_pass_count.induct)
  case (1 offset dv n)
  show ?case
  proof (cases "dv < 0x606")
    case False
    then show ?thesis by (subst neg_pass_count.simps) simp
  next
    case lt: True
    then have s: "nat ((0x606 - dv + 3) div 4) = 1 + nat ((0x606 - (dv + 4) + 3) div 4)"
      by simp
    have one: "n + 1 \<le> n + nat ((0x606 - dv + 3) div 4)" using s by simp
    show ?thesis
      using "1.IH" lt one s
      by (subst neg_pass_count.simps) (auto split: sum.splits)
  qed
qed

lemma hit_pos_zero: "\<not> hit_pos offset 0"
  by (simp add: hit_pos_def clean_def pack_H_def numeral_2_eq_2)

lemma hit_neg_zero: "\<not> hit_neg offset 0"
  by (simp add: hit_neg_def clean_def pack_H_def numeral_2_eq_2)

text \<open>The three ways in which \<open>generate_offset\<close> returns a value.\<close>

lemma generate_offset_result:
  assumes "generate_offset offset = Inr r"
  shows "(0 < r \<longrightarrow> hit_pos offset r \<and> (\<forall>d. d < r \<longrightarrow> \<not> hit_pos offset d)) \<and>
         (r < 0 \<longrightarrow> (\<forall>d. \<not> hit_pos offset d) \<and> hit_neg offset (- r) \<and>
                     (\<forall>d. d < - r \<longrightarrow> \<not> hit_neg offset d)) \<and>
         (r = 0 \<longrightarrow> (\<forall>d. \<not> hit_pos offset d) \<and> (\<forall>d. \<not> hit_neg offset d))"
proof (cases "pos_pass offset 0")
  case (Inl e)
  with assms show ?thesis by (simp add: generate_offset_def)
next
  case (Inr res)
  show ?thesis
  proof (cases res)
    case (Some r')
    with Inr assms have r: "r' = r" by (simp add: generate_offset_def)
    from pos_pass_Some[of offset 0 r] Inr Some r
    have h: "hit_pos offset r" and l: "\<forall>d. 0 \<le> d \<and> d < r \<and> 4 dvd d \<longrightarrow> \<not> hit_pos offset d"
      by simp_all
    from h hit_pos_zero[of offset] have "0 < r"
      by (cases "r = 0") (auto simp: hit_pos_def)
    moreover have "\<forall>d. d < r \<longrightarrow> \<not> hit_pos offset d"
      using l by (auto simp: hit_pos_def)
    ultimately show ?thesis using h by simp
  next
    case None
    with Inr pos_pass_None[of offset 0] have nopos: "\<forall>d. \<not> hit_pos offset d"
      by (auto simp: hit_pos_def)
    show ?thesis
    proof (cases "neg_pass offset 0")
      case (Inl e)
      with Inr None assms show ?thesis by (simp add: generate_offset_def)
    next
      case nInr: (Inr res')
      show ?thesis
      proof (cases res')
        case (Some r')
        with nInr Inr None assms have r: "r' = r" by (simp add: generate_offset_def)
        from neg_pass_Some[of offset 0 r] nInr Some r
        have h: "hit_neg offset (- r)"
          and l: "\<forall>d. 0 \<le> d \<and> d < - r \<and> 4 dvd d \<longrightarrow> \<not> hit_neg offset d"
          by simp_all
        from h hit_neg_zero[of offset] have "r < 0"
          by (cases "r = 0") (auto simp: hit_neg_def)
        moreover have "\<forall>d. d < - r \<longrightarrow> \<not> hit_neg offset d"
          using l by (auto simp: hit_neg_def)
        ultimately show ?thesis using h nopos by simp
      next
        case nNone: None
        with nInr neg_pass_None[of offset 0] have noneg: "\<forall>d. \<not> hit_neg offset d"
          by (auto simp: hit_neg_def)
        from nNone nInr Inr None assms have "r = 0" by (simp add: generate_offset_def)
        with nopos noneg show ?thesis by simp
      qed
    qed
  qed
qed

text \<open>A clean 4-byte encoding has a non-zero top byte, so its value is at least \<open>2^24\<close>.\<close>

lemma clean_pack_I_range: "clean (pack_I x) \<Longrightarrow> 2 ^ 24 \<le> x \<and> x < 2 ^ 32"
proof -
  assume c: "clean (pack_I x)"
  then have r: "0 \<le> x \<and> x < 2 ^ 32"
    by (auto simp: clean_def pack_I_def split: if_splits)
  with c have nb: "\<not> has_bad_uart_chars (le_bytes 4 x)"
    by (simp add: clean_def pack_I_def)
  have "\<not> x < 2 ^ 24"
  proof
    assume "x < 2 ^ 24"
    with r have "has_bad_uart_chars (le_bytes 4 x)" by (intro has_bad_top_zero) simp_all
    with nb show False by simp
  qed
  with r show ?thesis by simp
qed

text \<open>The loops do return the first passing candidate: the converse of the lemmas above.\<close>

lemma pos_pass_complete:
  "hit_pos offset d \<Longrightarrow> \<forall>d'. dv \<le> d' \<and> d' < d \<and> 4 dvd d' \<longrightarrow> \<not> hit_pos offset d' \<Longrightarrow>
     0 \<le> dv \<Longrightarrow> 4 dvd dv \<Longrightarrow> dv \<le> d \<Longrightarrow> 0 \<le> offset \<Longrightarrow>
     pos_pass offset dv = Inr (Some d)"
proof (induction offset dv rule: pos_pass.induct)
  case (1 offset dv)
  from "1.prems"(1) have hd: "d < 0x606" "4 dvd d" "offset + d < 2 ^ 32"
    using clean_pack_I_range[of "offset + d"] by (simp_all add: hit_pos_def)
  with "1.prems" have lt: "dv < 0x606" by simp
  from "1.prems" hd lt have p: "pack_I (offset + dv) = Inr (le_bytes 4 (offset + dv))"
    "pack_H dv = Inr (le_bytes 2 dv)"
    by (simp_all add: pack_I_def pack_H_def)
  show ?case
  proof (cases "dv = d")
    case True
    with "1.prems"(1) p have "\<not> has_bad_uart_chars (le_bytes 4 (offset + dv))"
      "\<not> has_bad_uart_chars (le_bytes 2 dv)"
      by (simp_all add: hit_pos_def clean_def)
    with lt p True show ?thesis by (subst pos_pass.simps) simp
  next
    case False
    with "1.prems"(5) have less: "dv < d" by simp
    with "1.prems"(4) hd(2) have nxt: "dv + 4 \<le> d" by presburger
    from less "1.prems" have "\<not> hit_pos offset dv" by simp
    with "1.prems"(3,4) lt p have bad: "has_bad_uart_chars (le_bytes 4 (offset + dv)) \<or>
        has_bad_uart_chars (le_bytes 2 dv)"
      by (auto simp: hit_pos_def clean_def)
    have rest: "\<forall>d'. dv + 4 \<le> d' \<and> d' < d \<and> 4 dvd d' \<longrightarrow> \<not> hit_pos offset d'"
      using "1.prems"(2) by auto
    have n0: "0 \<le> dv + 4" "4 dvd dv + 4" using "1.prems"(3,4) by simp_all
    have rec: "pos_pass offset (dv + 4) = Inr (Some d)"
    proof (cases "has_bad_uart_chars (le_bytes 4 (offset + dv))")
      case True
      show ?thesis
        using "1.IH"(2)[OF lt p(1) p(2) _ "1.prems"(1) rest n0 nxt "1.prems"(6)] True by simp
    next
      case f: False
      with bad have b2: "has_bad_uart_chars (le_bytes 2 dv)" by simp
      show ?thesis
        using "1.IH"(1)[OF lt p(1) p(2) _ _ "1.prems"(1) rest n0 nxt "1.prems"(6)] f b2 by simp
    qed
    with lt p bad show ?thesis by (subst pos_pass.simps) auto
  qed
qed

lemma neg_pass_complete:
  "hit_neg offset d \<Longrightarrow> \<forall>d'. dv \<le> d' \<and> d' < d \<and> 4 dvd d' \<longrightarrow> \<not> hit_neg offset d' \<Longrightarrow>
     0 \<le> dv \<Longrightarrow> 4 dvd dv \<Longrightarrow> dv \<le> d \<Longrightarrow> offset < 2 ^ 32 \<Longrightarrow>
     neg_pass offset dv = Inr (Some (- d))"
proof (induction offset dv rule: neg_pass.induct)
  case (1 offset dv)
  from "1.prems"(1) have hd: "d < 0x606" "4 dvd d" "0 \<le> offset - d"
    using clean_pack_I_range[of "offset - d"] by (simp_all add: hit_neg_def)
  with "1.prems" have lt: "dv < 0x606" by simp
  from "1.prems" hd lt have p: "pack_I (offset - dv) = Inr (le_bytes 4 (offset - dv))"
    "pack_H dv = Inr (le_bytes 2 dv)"
    by (simp_all add: pack_I_def pack_H_def)
  show ?case
  proof (cases "dv = d")
    case True
    with "1.prems"(1) p have "\<not> has_bad_uart_chars (le_bytes 4 (offset - dv))"
      "\<not> has_bad_uart_chars (le_bytes 2 dv)"
      by (simp_all add: hit_neg_def clean_def)
    with lt p True show ?thesis by (subst neg_pass.simps) simp
  next
    case False
    with "1.prems"(5) have less: "dv < d" by simp
    with "1.prems"(4) hd(2) have nxt: "dv + 4 \<le> d" by presburger
    from less "1.prems" have "\<not> hit_neg offset dv" by simp
    with "1.prems"(3,4) lt p have bad: "has_bad_uart_chars (le_bytes 4 (offset - dv)) \<or>
        has_bad_uart_chars (le_bytes 2 dv)"
      by (auto simp: hit_neg_def clean_def)
    have rest: "\<forall>d'. dv + 4 \<le> d' \<and> d' < d \<and> 4 dvd d' \<longrightarrow> \<not> hit_neg offset d'"
      using "1.prems"(2) by auto
    have n0: "0 \<le> dv + 4" "4 dvd dv + 4" using "1.prems"(3,4) by simp_all
    have rec: "neg_pass offset (dv + 4) = Inr (Some (- d))"
    proof (cases "has_bad_uart_chars (le_bytes 4 (offset - dv))")
      case True
      show ?thesis
        using "1.IH"(2)[OF lt p(1) p(2) _ "1.prems"(1) rest n0 nxt "1.prems"(6)] True by simp
    next
      case f: False
      with bad have b2: "has_bad_uart_chars (le_bytes 2 dv)" by simp
      show ?thesis
        using "1.IH"(1)[OF lt p(1) p(2) _ _ "1.prems"(1) rest n0 nxt "1.prems"(6)] f b2 by simp
    qed
    with lt p bad show ?thesis by (subst neg_pass.simps) auto
  qed
qed

lemma pos_pass_no_hit:
  assumes "\<forall>d'. \<not> hit_pos offset d'" and "0 \<le> offset" and "offset + 0x604 < 2 ^ 32"
  shows "pos_pass offset 0 = Inr None"
proof (cases "pos_pass offset 0")
  case (Inl e)
  with pos_pass_no_error[of offset 0 e] assms show ?thesis by simp
next
  case (Inr res)
  show ?thesis
  proof (cases res)
    case None
    with Inr show ?thesis by simp
  next
    case (Some r)
    with Inr pos_pass_Some[of offset 0 r] have "hit_pos offset r" by simp
    with assms(1) show ?thesis by simp
  qed
qed

lemma generate_offset_hit_pos:
  assumes "hit_pos offset d" and "\<forall>d'. d' < d \<longrightarrow> \<not> hit_pos offset d'"
  shows "generate_offset offset = Inr d"
proof -
  from assms(1) have "2 ^ 24 \<le> offset + d" "d < 0x606" "0 \<le> d"
    using clean_pack_I_range[of "offset + d"] by (simp_all add: hit_pos_def)
  then have "0 \<le> offset" by simp
  with assms have "pos_pass offset 0 = Inr (Some d)"
    by (intro pos_pass_complete) (simp_all add: hit_pos_def)
  then show ?thesis by (simp add: generate_offset_def)
qed

lemma generate_offset_hit_neg:
  assumes "\<forall>d'. \<not> hit_pos offset d'" and "offset + 0x604 < 2 ^ 32"
    and "hit_neg offset d" and "\<forall>d'. d' < d \<longrightarrow> \<not> hit_neg offset d'"
  shows "generate_offset offset = Inr (- d)"
proof -
  from assms(3) have "2 ^ 24 \<le> offset - d" "d < 0x606" "0 \<le> d"
    using clean_pack_I_range[of "offset - d"] by (simp_all add: hit_neg_def)
  then have o: "0 \<le> offset" by simp
  with assms(1,2) have "pos_pass offset 0 = Inr None" by (intro pos_pass_no_hit)
  moreover from assms(2,3,4) have "neg_pass offset 0 = Inr (Some (- d))"
    by (intro neg_pass_complete) (simp_all add: hit_neg_def)
  ultimately show ?thesis by (simp add: generate_offset_def)
qed

text \<open>Three runs: a hit in the first loop, a hit in the second, and no hit at all.\<close>

lemma generate_offset_41414141: "generate_offset 0x41414141 = Inr 0x104"
  by code_simp

lemma generate_offset_10000000: "generate_offset 0x10000000 = Inr (- 0x104)"
  by code_simp

lemma generate_offset_F00000: "generate_offset 0xF00000 = Inr 0"
proof -
  have "pos_pass 0xF00000 0 = Inr None" by (rule pos_pass_exhaust) simp_all
  moreover have "neg_pass 0xF00000 0 = Inr None" by (rule neg_pass_exhaust) simp_all
  ultimately show ?thesis by (simp add: generate_offset_def)
qed

lemma generate_offset_0: "generate_offset 0 = Inl StructError"
proof -
  have "pos_pass 0 0 = Inr None" by (rule pos_pass_exhaust) simp_all
  moreover have "neg_pass 0 0 = Inl StructError"
    by (simp add: neg_pass.simps[of 0 0] neg_pass.simps[of 0 4] pack_I_def pack_H_def
        numeral_eq_Suc)
  ultimately show ?thesis by (simp add: generate_offset_def)
qed

text \<open>
  Claim C1. \<open>generate_offset\<close> returns the smallest passing candidate, in both directions.
  A candidate \<open>d\<close> passes for the first loop (\<open>hit_pos\<close>) when it is a non-negative
  multiple of 4 below \<open>0x606\<close> and the 4-byte little-endian encoding of \<open>offset + d\<close> and
  the 2-byte little-endian encoding of \<open>d\<close> both exist and contain no forbidden byte;
  \<open>hit_neg\<close> is the same for \<open>offset - d\<close>.
  \<^item> Whatever is returned is least: a positive result \<open>r\<close> is the smallest passing
    candidate; a negative result \<open>r\<close> is returned only if no non-negative candidate passes,
    and then \<open>- r\<close> is the smallest magnitude passing for \<open>offset - d\<close>; 0 is returned only
    when no candidate passes in either direction (the candidate 0 itself never passes, its
    2-byte encoding being two zero bytes).
  \<^item> The least candidate is returned: if \<open>p\<close> is the smallest candidate passing for the
    first loop, the function returns \<open>p\<close>.
  \<^item> If no candidate passes for the first loop, that loop does not leave the 32-bit range
    (\<open>offset + 0x604 < 2^32\<close>), and \<open>n\<close> is the smallest candidate passing for the second
    loop, the function returns \<open>- n\<close>.
\<close>

theorem generate_offset_least:
  "(generate_offset offset = Inr r \<longrightarrow>
      (0 < r \<longrightarrow> hit_pos offset r \<and> (\<forall>d. d < r \<longrightarrow> \<not> hit_pos offset d)) \<and>
      (r < 0 \<longrightarrow> (\<forall>d. \<not> hit_pos offset d) \<and> hit_neg offset (- r) \<and>
                  (\<forall>d. d < - r \<longrightarrow> \<not> hit_neg offset d)) \<and>
      (r = 0 \<longrightarrow> (\<forall>d. \<not> hit_pos offset d) \<and> (\<forall>d. \<not> hit_neg offset d))) \<and>
   (hit_pos offset p \<and> (\<forall>d. d < p \<longrightarrow> \<not> hit_pos offset d) \<longrightarrow>
      generate_offset offset = Inr p) \<and>
   ((\<forall>d. \<not> hit_pos offset d) \<and> offset + 0x604 < 2 ^ 32 \<and>
    hit_neg offset n \<and> (\<forall>d. d < n \<longrightarrow> \<not> hit_neg offset d) \<longrightarrow>
      generate_offset offset = Inr (- n))"
  using generate_offset_result[of offset r] generate_offset_hit_pos[of offset p]
    generate_offset_hit_neg[of offset n]
  by blast

theorem generate_offset_least_witness:
  "hit_pos 0x41414141 0x104 \<and> \<not> hit_pos 0x41414141 0x100 \<and>
   generate_offset 0x41414141 = Inr 0x104 \<and>
   \<not> hit_pos 0x10000000 0x104 \<and> (0x10000000::int) + 0x604 < 2 ^ 32 \<and>
   hit_neg 0x10000000 0x104 \<and> \<not> hit_neg 0x10000000 0x100 \<and>
   generate_offset 0x10000000 = Inr (- 0x104)"
proof -
  have hp: "hit_pos 0x41414141 0x104"
    and lp: "\<forall>d. d < 0x104 \<longrightarrow> \<not> hit_pos 0x41414141 d"
    using generate_offset_result[OF generate_offset_41414141] by simp_all
  have np: "\<forall>d. \<not> hit_pos 0x10000000 d"
    and hn: "hit_neg 0x10000000 0x104"
    and ln: "\<forall>d. d < 0x104 \<longrightarrow> \<not> hit_neg 0x10000000 d"
    using generate_offset_result[OF generate_offset_10000000] by simp_all
  have rng: "(0x10000000::int) + 0x604 < 2 ^ 32" by simp
  have 1: "generate_offset 0x41414141 = Inr 0x104"
    using generate_offset_least[where offset = "0x41414141" and p = "0x104"] hp lp by blast
  have 2: "generate_offset 0x10000000 = Inr (- 0x104)"
    using generate_offset_least[where offset = "0x10000000" and n = "0x104"] np rng hn ln
    by blast
  from hp lp np hn ln rng 1 2 show ?thesis by simp
qed

text \<open>
  Claim C5. Every divisor that \<open>generate_offset\<close> returns has magnitude below \<open>0x606\<close> and
  is a multiple of 4, whether it comes from a hit or is the fallback 0.
\<close>

theorem generate_offset_bounded:
  assumes "generate_offset offset = Inr r"
  shows "\<bar>r\<bar> < 0x606 \<and> 4 dvd r"
proof -
  note g = generate_offset_result[OF assms]
  show ?thesis
  proof (cases "0 < r")
    case True
    with g show ?thesis by (auto simp: hit_pos_def)
  next
    case False
    show ?thesis
    proof (cases "r < 0")
      case True
      with g have "hit_neg offset (- r)" by simp
      then show ?thesis by (auto simp: hit_neg_def)
    next
      case f: False
      with False have "r = 0" by simp
      then show ?thesis by simp
    qed
  qed
qed

theorem generate_offset_bounded_witness:
  "generate_offset 0x10000000 = Inr (- 0x104) \<and> \<bar>- 0x104 :: int\<bar> < 0x606 \<and>
   (4::int) dvd - 0x104 \<and>
   generate_offset 0xF00000 = Inr 0 \<and> \<bar>0 :: int\<bar> < 0x606 \<and> (4::int) dvd 0"
  using generate_offset_bounded[OF generate_offset_10000000]
    generate_offset_bounded[OF generate_offset_F00000]
    generate_offset_10000000 generate_offset_F00000
  by simp

text \<open>
  Claim C6. \<open>generate_offset\<close> terminates on every input (both loops are total functions,
  by the measure \<open>0x606 - div\<close>), and each loop executes its body at most 386 times: the
  loop with a counter returns the same outcome as the loop of the code, and its counter
  never exceeds 386.
\<close>

theorem generate_offset_iterations:
  "fst (pos_pass_count offset 0 0) = pos_pass offset 0 \<and>
   snd (pos_pass_count offset 0 0) \<le> 386 \<and>
   fst (neg_pass_count offset 0 0) = neg_pass offset 0 \<and>
   snd (neg_pass_count offset 0 0) \<le> 386"
  using pos_pass_count_snd[of offset 0 0] neg_pass_count_snd[of offset 0 0]
  by (simp add: pos_pass_count_fst neg_pass_count_fst)

text \<open>
  Claim C9. For every \<open>offset\<close> with \<open>0x604 \<le> offset \<le> 2^32 - 1 - 0x604\<close> no
  \<^verbatim>\<open>struct.pack\<close> call of either loop raises, so \<open>generate_offset\<close> returns an integer; at
  \<open>offset = 0\<close>, outside that range, the first loop rejects every candidate and the second
  loop raises \<^verbatim>\<open>struct.error\<close> when it encodes \<open>0 - 4\<close>, instead of returning the
  fallback 0.
\<close>

theorem generate_offset_exception_free:
  "(0x604 \<le> offset \<and> offset \<le> 2 ^ 32 - 1 - 0x604 \<longrightarrow> (\<exists>r. generate_offset offset = Inr r)) \<and>
   generate_offset 0 = Inl StructError"
proof (intro conjI impI)
  assume a: "0x604 \<le> offset \<and> offset \<le> 2 ^ 32 - 1 - 0x604"
  have p: "pos_pass offset 0 \<noteq> Inl e" for e
    using a by (intro pos_pass_no_error) simp_all
  have n: "neg_pass offset 0 \<noteq> Inl e" for e
    using a by (intro neg_pass_no_error) simp_all
  show "\<exists>r. generate_offset offset = Inr r"
  proof (cases "pos_pass offset 0")
    case (Inl e)
    with p[of e] show ?thesis by simp
  next
    case (Inr res)
    show ?thesis
    proof (cases res)
      case (Some r)
      with Inr show ?thesis by (simp add: generate_offset_def)
    next
      case None
      show ?thesis
      proof (cases "neg_pass offset 0")
        case (Inl e)
        with n[of e] show ?thesis by simp
      next
        case nInr: (Inr res')
        with Inr None show ?thesis
          by (cases res') (simp_all add: generate_offset_def)
      qed
    qed
  qed
next
  show "generate_offset 0 = Inl StructError" by (rule generate_offset_0)
qed

theorem generate_offset_exception_free_witness:
  "(0x604::int) \<le> 0x41414141 \<and> (0x41414141::int) \<le> 2 ^ 32 - 1 - 0x604 \<and>
   (\<exists>r. generate_offset 0x41414141 = Inr r)"
  using generate_offset_exception_free[of "0x41414141"] by simp

section \<open>Properties of the instruction text\<close>

lemma low16: "(x::int) AND 0xFFFF = x mod 2 ^ 16"
proof -
  have "(0xFFFF::int) = mask 16" by (simp add: mask_eq_exp_minus_1)
  then show ?thesis by (simp only: take_bit_eq_mask[symmetric] take_bit_eq_mod)
qed

lemma high16: "drop_bit 16 ((x::int) AND 0xFFFF0000) = x div 2 ^ 16 mod 2 ^ 16"
proof -
  have m: "(0xFFFF0000::int) = push_bit 16 (mask 16)"
    by (simp add: mask_eq_exp_minus_1 push_bit_eq_mult)
  have "drop_bit 16 (x AND push_bit 16 (mask 16)) = take_bit 16 (drop_bit 16 x)"
    by (rule bit_eqI) (auto simp: bit_simps)
  then show ?thesis
    by (simp only: m take_bit_eq_mod drop_bit_eq_div)
qed

text \<open>
  Claim C2, amended. When \<open>generate_offset\<close> returns the divisor \<open>d\<close>, the text is a
  comment line with the target address, a \<^verbatim>\<open>mov\<close> of the low 16 bits of \<open>offset + d\<close>,
  a \<^verbatim>\<open>movk\<close> of its next 16 bits with \<^verbatim>\<open>LSL#16\<close>, and a third instruction in every
  case: \<^verbatim>\<open>sub\<close> of \<open>d\<close> when \<open>d > 0\<close>, and otherwise \<^verbatim>\<open>add\<close> of \<open>- d\<close>, which for
  \<open>d = 0\<close> is an \<^verbatim>\<open>add\<close> of \<^verbatim>\<open>0x0\<close>.
\<close>

theorem generate_offset_asm_text:
  assumes "generate_offset offset = Inr d"
  shows "generate_offset_asm offset reg = Inr (
           ''# '' @ hex offset @ nl @
           ''mov '' @ reg @ '', #'' @ hex ((offset + d) mod 2 ^ 16) @ '';'' @ nl @
           ''movk '' @ reg @ '', #'' @ hex ((offset + d) div 2 ^ 16 mod 2 ^ 16) @ '', LSL#16;'' @ nl @
           (if d > 0 then ''sub  '' @ reg @ '', '' @ reg @ '', #'' @ hex d @ '';'' @ nl
            else ''add  '' @ reg @ '', '' @ reg @ '', #'' @ hex (- d) @ '';'' @ nl))"
  using assms unfolding generate_offset_asm_def Let_def low16 high16 by simp

text \<open>Some values of \<open>hex\<close>.\<close>

lemma hex_41414141: "hex 0x41414141 = ''0x41414141''"
  by code_simp

lemma hex_4245: "hex 0x4245 = ''0x4245''"
  by code_simp

lemma hex_4141: "hex 0x4141 = ''0x4141''"
  by code_simp

lemma hex_104: "hex 0x104 = ''0x104''"
  by code_simp

theorem generate_offset_asm_text_witness:
  "generate_offset_asm 0x41414141 ''X24'' = Inr (
     ''# 0x41414141'' @ nl @ ''mov X24, #0x4245;'' @ nl @
     ''movk X24, #0x4141, LSL#16;'' @ nl @ ''sub  X24, X24, #0x104;'' @ nl)"
  using generate_offset_asm_text[OF generate_offset_41414141, of "''X24''"]
  by (simp add: hex_41414141 hex_4245 hex_4141 hex_104)

lemma hex_F00000: "hex 0xF00000 = ''0xf00000''"
  by code_simp

lemma hex_0: "hex 0 = ''0x0''"
  by code_simp

lemma hex_F0: "hex 0xF0 = ''0xf0''"
  by code_simp

text \<open>
  Claim C2 fails as stated. For the target \<open>0xF00000\<close> the divisor is 0 (the fallback),
  and the text still ends with a third instruction, \<^verbatim>\<open>add  X24, X24, #0x0;\<close>.
\<close>

theorem generate_offset_asm_zero_counterexample:
  "generate_offset 0xF00000 = Inr 0 \<and>
   generate_offset_asm 0xF00000 ''X24'' = Inr (
     ''# 0xf00000'' @ nl @ ''mov X24, #0x0;'' @ nl @
     ''movk X24, #0xf0, LSL#16;'' @ nl @ ''add  X24, X24, #0x0;'' @ nl)"
proof -
  have a: "(0xF00000::int) AND 0xFFFF = 0" by simp
  have b: "drop_bit 16 ((0xF00000::int) AND 0xFFFF0000) = 0xF0" by (simp add: drop_bit_eq_div)
  show ?thesis
    by (simp add: generate_offset_asm_def generate_offset_F00000 Let_def a b
        hex_F00000 hex_0 hex_F0)
qed

section \<open>Properties of the image loader and the address lookups\<close>

lemma scenario_parsed: "ELF_init scenario_image ''scenario'' = Inr scenario_elf"
  by code_simp

lemma scan_fileoffset_first:
  "i < length ml \<Longrightarrow> in_virt (ml ! i) q \<Longrightarrow> \<forall>j<i. \<not> in_virt (ml ! j) q \<Longrightarrow>
     scan_fileoffset ml q = Some (q - virt_start_addr (ml ! i) + file_start_addr (ml ! i))"
proof (induction ml arbitrary: i)
  case Nil
  then show ?case by simp
next
  case (Cons m ml)
  show ?case
  proof (cases i)
    case 0
    with Cons.prems show ?thesis by (auto simp: in_virt_def)
  next
    case (Suc k)
    with Cons.prems have "\<not> in_virt m q" by auto
    moreover from Suc Cons.prems have "scan_fileoffset ml q =
        Some (q - virt_start_addr (ml ! k) + file_start_addr (ml ! k))"
      by (intro Cons.IH) auto
    ultimately show ?thesis using Suc by (auto simp: in_virt_def)
  qed
qed

lemma scan_baseaddr_first:
  "i < length ml \<Longrightarrow> in_virt (ml ! i) q \<Longrightarrow> \<forall>j<i. \<not> in_virt (ml ! j) q \<Longrightarrow>
     scan_baseaddr ml q = Some (virt_start_addr (ml ! i))"
proof (induction ml arbitrary: i)
  case Nil
  then show ?case by simp
next
  case (Cons m ml)
  show ?case
  proof (cases i)
    case 0
    with Cons.prems show ?thesis by (auto simp: in_virt_def)
  next
    case (Suc k)
    with Cons.prems have "\<not> in_virt m q" by auto
    moreover from Suc Cons.prems have "scan_baseaddr ml q = Some (virt_start_addr (ml ! k))"
      by (intro Cons.IH) auto
    ultimately show ?thesis using Suc by (auto simp: in_virt_def)
  qed
qed

lemma scan_virtaddr_first:
  "i < length ml \<Longrightarrow> in_file (ml ! i) q \<Longrightarrow> \<forall>j<i. \<not> in_file (ml ! j) q \<Longrightarrow>
     scan_virtaddr ml q = Some (virt_start_addr (ml ! i) + q - file_start_addr (ml ! i))"
proof (induction ml arbitrary: i)
  case Nil
  then show ?case by simp
next
  case (Cons m ml)
  show ?case
  proof (cases i)
    case 0
    with Cons.prems show ?thesis by (auto simp: in_file_def)
  next
    case (Suc k)
    with Cons.prems have "\<not> in_file m q" by auto
    moreover from Suc Cons.prems have "scan_virtaddr ml q =
        Some (virt_start_addr (ml ! k) + q - file_start_addr (ml ! k))"
      by (intro Cons.IH) auto
    ultimately show ?thesis using Suc by (auto simp: in_file_def)
  qed
qed

lemma scan_fileoffset_none:
  "\<forall>j<length ml. \<not> in_virt (ml ! j) q \<Longrightarrow> scan_fileoffset ml q = None"
proof (induction ml)
  case Nil
  show ?case by simp
next
  case (Cons m ml)
  from Cons.prems have "\<not> in_virt m q" by auto
  moreover from Cons.prems have "\<forall>j<length ml. \<not> in_virt (ml ! j) q" by auto
  ultimately show ?case using Cons.IH by (auto simp: in_virt_def)
qed

lemma scan_baseaddr_none:
  "\<forall>j<length ml. \<not> in_virt (ml ! j) q \<Longrightarrow> scan_baseaddr ml q = None"
proof (induction ml)
  case Nil
  show ?case by simp
next
  case (Cons m ml)
  from Cons.prems have "\<not> in_virt m q" by auto
  moreover from Cons.prems have "\<forall>j<length ml. \<not> in_virt (ml ! j) q" by auto
  ultimately show ?case using Cons.IH by (auto simp: in_virt_def)
qed

lemma scan_virtaddr_none:
  "\<forall>j<length ml. \<not> in_file (ml ! j) q \<Longrightarrow> scan_virtaddr ml q = None"
proof (induction ml)
  case Nil
  show ?case by simp
next
  case (Cons m ml)
  from Cons.prems have "\<not> in_file m q" by auto
  moreover from Cons.prems have "\<forall>j<length ml. \<not> in_file (ml ! j) q" by auto
  ultimately show ?case using Cons.IH by (auto simp: in_file_def)
qed

text \<open>
  Claim C7. The three lookups are total functions into \<open>option\<close> (no branch raises)
  on every image and every query. When segment \<open>i\<close> is the first in table order whose
  inclusive range holds the query, the lookup returns the value translated by segment
  \<open>i\<close>; when no segment holds the query, it returns \<open>None\<close>.
\<close>

theorem lookups_first_match:
  "(i < length (memorylayout self) \<and> in_virt (memorylayout self ! i) q \<and>
      (\<forall>j<i. \<not> in_virt (memorylayout self ! j) q) \<longrightarrow>
        getfileoffset self q =
          Some (q - virt_start_addr (memorylayout self ! i) + file_start_addr (memorylayout self ! i)) \<and>
        getbaseaddr self q = Some (virt_start_addr (memorylayout self ! i))) \<and>
   (i < length (memorylayout self) \<and> in_file (memorylayout self ! i) q \<and>
      (\<forall>j<i. \<not> in_file (memorylayout self ! j) q) \<longrightarrow>
        getvirtaddr self q =
          Some (virt_start_addr (memorylayout self ! i) + q - file_start_addr (memorylayout self ! i))) \<and>
   ((\<forall>j<length (memorylayout self). \<not> in_virt (memorylayout self ! j) q) \<longrightarrow>
        getfileoffset self q = None \<and> getbaseaddr self q = None) \<and>
   ((\<forall>j<length (memorylayout self). \<not> in_file (memorylayout self ! j) q) \<longrightarrow>
        getvirtaddr self q = None)"
  by (simp add: getfileoffset_def getbaseaddr_def getvirtaddr_def scan_fileoffset_first
      scan_baseaddr_first scan_virtaddr_first scan_fileoffset_none scan_baseaddr_none
      scan_virtaddr_none)

theorem lookups_first_match_witness:
  "getfileoffset scenario_elf 0x1010 = Some 0x50 \<and> getbaseaddr scenario_elf 0x1050 = Some 0x1000 \<and>
   getvirtaddr scenario_elf 0x50 = Some 0x1010 \<and>
   getfileoffset scenario_elf 0x5000 = None \<and> getbaseaddr scenario_elf 0x5000 = None \<and>
   getvirtaddr scenario_elf 0x5000 = None"
  using lookups_first_match[of 0 scenario_elf "0x1010"] lookups_first_match[of 0 scenario_elf "0x1050"]
    lookups_first_match[of 0 scenario_elf "0x50"] lookups_first_match[of 0 scenario_elf "0x5000"]
  by (simp add: scenario_elf_def in_virt_def in_file_def)

text \<open>
  Claim C3 fails as stated. In the parsed sample image the address \<open>0x1150\<close> lies in
  the virtual range \<open>[0x1000, 0x1200]\<close> of the only segment, \<open>getfileoffset\<close> maps it to
  \<open>0x190\<close>, and \<open>0x190\<close> is beyond the segment's file range \<open>[0x40, 0x140]\<close>, so
  \<open>getvirtaddr\<close> returns \<open>None\<close>.
\<close>

theorem roundtrip_counterexample:
  "ELF_init scenario_image ''scenario'' = Inr scenario_elf \<and>
   0 < length (memorylayout scenario_elf) \<and>
   virt_start_addr (memorylayout scenario_elf ! 0) \<le> 0x1150 \<and>
   0x1150 \<le> virt_end_addr (memorylayout scenario_elf ! 0) \<and>
   getfileoffset scenario_elf 0x1150 = Some 0x190 \<and>
   getvirtaddr scenario_elf 0x190 = None"
  by (simp add: scenario_parsed) (simp add: scenario_elf_def getfileoffset_def getvirtaddr_def)

text \<open>
  Claim C3, amended. Let segment \<open>i\<close> hold the virtual address \<open>q\<close> in its inclusive
  virtual range. If no earlier segment's virtual range holds \<open>q\<close>, the translated file
  offset \<open>q - virt_start + file_start\<close> does not exceed the segment's \<open>file_end\<close>, and no
  earlier segment's file range holds that file offset, then \<open>getfileoffset\<close> returns that
  file offset and \<open>getvirtaddr\<close> maps it back to \<open>q\<close>.
\<close>

theorem roundtrip_first_match:
  assumes "i < length (memorylayout self)"
    and "in_virt (memorylayout self ! i) q"
    and "\<forall>j<i. \<not> in_virt (memorylayout self ! j) q"
    and "q - virt_start_addr (memorylayout self ! i) + file_start_addr (memorylayout self ! i)
           \<le> file_end_addr (memorylayout self ! i)"
    and "\<forall>j<i. \<not> in_file (memorylayout self ! j)
           (q - virt_start_addr (memorylayout self ! i) + file_start_addr (memorylayout self ! i))"
  shows "getfileoffset self q =
           Some (q - virt_start_addr (memorylayout self ! i) + file_start_addr (memorylayout self ! i)) \<and>
         getvirtaddr self
           (q - virt_start_addr (memorylayout self ! i) + file_start_addr (memorylayout self ! i)) = Some q"
proof -
  let ?m = "memorylayout self ! i"
  let ?f = "q - virt_start_addr ?m + file_start_addr ?m"
  have 1: "getfileoffset self q = Some ?f"
    unfolding getfileoffset_def using assms(1-3) by (rule scan_fileoffset_first)
  have "in_file ?m ?f" using assms(2,4) by (simp add: in_file_def in_virt_def)
  with assms(1) have "scan_virtaddr (memorylayout self) ?f =
      Some (virt_start_addr ?m + ?f - file_start_addr ?m)"
    using assms(5) by (rule scan_virtaddr_first)
  then have 2: "getvirtaddr self ?f = Some q" by (simp add: getvirtaddr_def)
  from 1 2 show ?thesis by simp
qed

theorem roundtrip_first_match_witness:
  "getfileoffset scenario_elf 0x1010 = Some 0x50 \<and> getvirtaddr scenario_elf 0x50 = Some 0x1010"
  using roundtrip_first_match[of 0 scenario_elf "0x1010"]
  by (simp add: scenario_elf_def in_virt_def in_file_def)

text \<open>
  Claim C4 fails as stated. On a five-byte buffer with class byte 3 the constructor
  raises nothing: it returns an object whose header, entry list and segment list are
  empty.
\<close>

theorem parse_invalid_class_counterexample:
  "ELF_init [0x7F, 0x45, 0x4C, 0x46, 0x03] ''bad'' =
     Inr \<lparr>data = [0x7F, 0x45, 0x4C, 0x46, 0x03], filename = ''bad'', elfclass = 3,
          header = [], pentry = [], memorylayout = []\<rparr>"
  by (simp add: ELF_init_def parse_def)

text \<open>
  Claim C4, amended. For every buffer of at least five bytes whose class byte (index 4)
  is neither 1 nor 2, \<open>parse\<close> raises no error and returns the class byte with an empty
  header and an empty entry list; the constructor then returns an object with an empty
  segment list, on which every lookup returns \<open>None\<close>.
\<close>

theorem parse_invalid_class:
  assumes "4 < length dat" and "uint (dat ! 4) \<noteq> 1" and "uint (dat ! 4) \<noteq> 2"
  shows "parse dat = Inr (uint (dat ! 4), [], []) \<and>
         ELF_init dat fname =
           Inr \<lparr>data = dat, filename = fname, elfclass = uint (dat ! 4),
                header = [], pentry = [], memorylayout = []\<rparr> \<and>
         (\<exists>self. ELF_init dat fname = Inr self \<and> getfileoffset self q = None \<and>
            getvirtaddr self q = None \<and> getbaseaddr self q = None)"
  using assms
  by (simp add: ELF_init_def parse_def getfileoffset_def getvirtaddr_def getbaseaddr_def)

theorem parse_invalid_class_witness:
  "parse [0x7F, 0x45, 0x4C, 0x46, 0x03] = Inr (3, [], []) \<and>
   ELF_init [0x7F, 0x45, 0x4C, 0x46, 0x03] ''bad'' =
     Inr \<lparr>data = [0x7F, 0x45, 0x4C, 0x46, 0x03], filename = ''bad'', elfclass = 3,
          header = [], pentry = [], memorylayout = []\<rparr>"
  using parse_invalid_class[of "[0x7F, 0x45, 0x4C, 0x46, 0x03]" "''bad''" 0]
  by simp

end
